theory Spec2Isabelle
  imports Main "HOL-Library.Sublist" "HOL-Library.Char_ord" "HOL-Library.List_Lexorder"
begin

section \<open>Go strings as byte lists\<close>

text \<open>
  A Go \<^verbatim>\<open>string\<close> or \<^verbatim>\<open>[]byte\<close> is a sequence of bytes; it is modelled as a
  \<^typ>\<open>string\<close> (a list of \<^typ>\<open>char\<close>, one char per byte).  The functions of Go's
  \<^verbatim>\<open>strings\<close> package that the program calls are written out below, under their Go
  names.  \<^verbatim>\<open>strings.HasPrefix\<close> and \<^verbatim>\<open>strings.HasSuffix\<close> are \<^const>\<open>prefix\<close> and
  \<^const>\<open>suffix\<close> with the arguments swapped.
\<close>

text \<open>\<open>LF\<close> is the line feed, \<open>CR\<close> the carriage return, \<open>DQ\<close> the double quote.\<close>

abbreviation LF :: char where "LF \<equiv> CHR 0x0A"
abbreviation CR :: char where "CR \<equiv> CHR 0x0D"
abbreviation DQ :: char where "DQ \<equiv> CHR 0x22"

definition HasPrefix :: "string \<Rightarrow> string \<Rightarrow> bool" where
  "HasPrefix s p = prefix p s"

definition HasSuffix :: "string \<Rightarrow> string \<Rightarrow> bool" where
  "HasSuffix s p = suffix p s"

definition TrimSuffix :: "string \<Rightarrow> string \<Rightarrow> string" where
  "TrimSuffix s suf = (if HasSuffix s suf then take (length s - length suf) s else s)"

section \<open>Package path: Join and Clean\<close>

text \<open>
  \<^verbatim>\<open>path.Clean\<close> of the Go standard library, byte by byte.  The reading index \<^verbatim>\<open>r\<close>
  is the part of the path not yet read; the lazy output buffer is the string \<open>out\<close>
  (its write index \<^verbatim>\<open>out.w\<close> is \<open>length out\<close>); \<open>dotdot\<close> is the index below which
  the output may not be backtracked.
\<close>

fun backtrack :: "string \<Rightarrow> nat \<Rightarrow> nat \<Rightarrow> nat" where
  "backtrack out dotdot w =
     (if w > dotdot \<and> out ! w \<noteq> CHR ''/'' then backtrack out dotdot (w - 1) else w)"

declare backtrack.simps [simp del]

definition notSlash :: "char \<Rightarrow> bool" where
  "notSlash c = (c \<noteq> CHR ''/'')"

definition cleanDotDot :: "bool \<Rightarrow> string \<Rightarrow> nat \<Rightarrow> string \<times> nat" where
  "cleanDotDot rooted out dotdot =
     (if length out > dotdot then (take (backtrack out dotdot (length out - 1)) out, dotdot)
      else if \<not> rooted then
        (let out' = (if length out > 0 then out @ ''/'' else out) @ ''..''
         in (out', length out'))
      else (out, dotdot))"

definition cleanElem :: "bool \<Rightarrow> string \<Rightarrow> string \<Rightarrow> string" where
  "cleanElem rooted out el =
     (if rooted \<and> length out \<noteq> 1 \<or> \<not> rooted \<and> length out \<noteq> 0 then out @ ''/'' else out) @ el"

function cleanLoop :: "bool \<Rightarrow> string \<Rightarrow> string \<Rightarrow> nat \<Rightarrow> string" where
  "cleanLoop rooted [] out dotdot = out"
| "cleanLoop rooted (c # cs) out dotdot =
     (if c = CHR ''/'' then cleanLoop rooted cs out dotdot
      else if c = CHR ''.'' \<and> (cs = [] \<or> HasPrefix cs ''/'') then cleanLoop rooted cs out dotdot
      else if c = CHR ''.'' \<and> HasPrefix cs ''.'' \<and> (tl cs = [] \<or> HasPrefix (tl cs) ''/'') then
        (case cleanDotDot rooted out dotdot of
           (out', dotdot') \<Rightarrow> cleanLoop rooted (tl cs) out' dotdot')
      else cleanLoop rooted (dropWhile notSlash cs)
             (cleanElem rooted out (c # takeWhile notSlash cs)) dotdot)"
  by pat_completeness auto
termination
  by (relation "measure (\<lambda>(rooted, p, out, dotdot). length p)")
     (auto simp: less_Suc_eq_le length_dropWhile_le)

definition Clean :: "string \<Rightarrow> string" where
  "Clean p =
     (if p = [] then ''.''
      else let rooted = HasPrefix p ''/'';
               out = (if rooted then cleanLoop True (tl p) ''/'' 1 else cleanLoop False p [] 0)
           in if out = [] then ''.'' else out)"

text \<open>\<^verbatim>\<open>path.Join\<close> for the two elements the program passes.\<close>

definition Join :: "string \<Rightarrow> string \<Rightarrow> string" where
  "Join a b =
     (if length a + length b = 0 then []
      else Clean (if a \<noteq> [] then a @ ''/'' @ b else b))"

section \<open>Package renderer: RewriteLinks\<close>

text \<open>
  The pattern \<^verbatim>\<open>href="([^"]*\.(?:md|MD))"\<close>.  A match that starts at the head of \<open>s\<close>
  consists of \<^verbatim>\<open>href="\<close>, a run of bytes other than the double quote that ends in
  \<^verbatim>\<open>.md\<close> or \<^verbatim>\<open>.MD\<close>, and a double quote.  Since the run holds no quote and must be
  followed by one, it is the longest quote-free run after \<^verbatim>\<open>href="\<close>, so the match at a
  position is unique.  \<open>linkPattern s\<close> returns the captured group and the text after
  the match.
\<close>

definition notQuote :: "char \<Rightarrow> bool" where
  "notQuote c = (c \<noteq> DQ)"

definition hrefOpen :: string where
  "hrefOpen = ''href='' @ [DQ]"

definition isDocTarget :: "string \<Rightarrow> bool" where
  "isDocTarget t = (HasSuffix t ''.md'' \<or> HasSuffix t ''.MD'')"

definition linkPattern :: "string \<Rightarrow> (string \<times> string) option" where
  "linkPattern s =
     (if HasPrefix s hrefOpen then
        (let r = drop 6 s; t = takeWhile notQuote r; r' = dropWhile notQuote r
         in if r' \<noteq> [] \<and> isDocTarget t then Some (t, tl r') else None)
      else None)"

definition resolveLink :: "string \<Rightarrow> string \<Rightarrow> string" where
  "resolveLink linkPath currentDir =
     (if HasPrefix linkPath ''/'' then drop 1 linkPath
      else if currentDir = [] \<or> currentDir = ''.'' then linkPath
      else Clean (Join currentDir linkPath))"

text \<open>
  The callback of \<^verbatim>\<open>ReplaceAllFunc\<close>, applied to the captured target of one match.
  \<^verbatim>\<open>FindSubmatch\<close> on the matched text finds the same match with its group, so the
  callback's guard \<^verbatim>\<open>len(matches) < 2\<close> never holds.
\<close>

definition isExternal :: "string \<Rightarrow> bool" where
  "isExternal linkPath = (HasPrefix linkPath ''http://'' \<or> HasPrefix linkPath ''https://'')"

definition serverRoute :: "string \<Rightarrow> string \<Rightarrow> string" where
  "serverRoute linkPath currentDir =
     (let resolvedPath = resolveLink linkPath currentDir;
          resolvedPath = TrimSuffix resolvedPath ''.md'';
          resolvedPath = TrimSuffix resolvedPath ''.MD''
      in if \<not> HasPrefix resolvedPath ''/'' then ''/'' @ resolvedPath else resolvedPath)"

definition rewriteMatch :: "string \<Rightarrow> string \<Rightarrow> string" where
  "rewriteMatch linkPath currentDir =
     (if isExternal linkPath then hrefOpen @ linkPath @ [DQ]
      else hrefOpen @ serverRoute linkPath currentDir @ [DQ])"

text \<open>
  \<^verbatim>\<open>ReplaceAllFunc\<close> scans the input from left to right: at a position where the pattern
  matches, the callback's result is emitted and the scan goes on after the match;
  elsewhere the byte is copied.
\<close>

lemma linkPattern_shorter: "linkPattern s = Some (t, rest) \<Longrightarrow> length rest < length s"
proof -
  assume a: "linkPattern s = Some (t, rest)"
  have le: "length (dropWhile notQuote (drop 6 s)) \<le> length (drop 6 s)"
    by (rule length_dropWhile_le)
  from a have ne: "dropWhile notQuote (drop 6 s) \<noteq> []" and r: "rest = tl (dropWhile notQuote (drop 6 s))"
    by (auto simp: linkPattern_def Let_def split: if_splits)
  from ne have "length (tl (dropWhile notQuote (drop 6 s))) < length (dropWhile notQuote (drop 6 s))"
    by (cases "dropWhile notQuote (drop 6 s)") auto
  with le r show ?thesis by simp
qed

function RewriteLinks :: "string \<Rightarrow> string \<Rightarrow> string" where
  "RewriteLinks htmlContent currentDir =
     (case htmlContent of
        [] \<Rightarrow> []
      | c # cs \<Rightarrow>
          (case linkPattern htmlContent of
             Some (t, rest) \<Rightarrow> rewriteMatch t currentDir @ RewriteLinks rest currentDir
           | None \<Rightarrow> c # RewriteLinks cs currentDir))"
  by pat_completeness auto
termination
  by (relation "measure (\<lambda>(s, d). length s)") (auto dest: linkPattern_shorter)

declare RewriteLinks.simps [simp del]

text \<open>
  Two notions used to state properties of the rewrite: \<open>hrefAttr t\<close> is the text of a
  reference attribute with target \<open>t\<close>, and \<open>hasMatch s\<close> holds when the pattern
  matches at some position of \<open>s\<close>.
\<close>

definition hrefAttr :: "string \<Rightarrow> string" where
  "hrefAttr t = hrefOpen @ t @ [DQ]"

fun hasMatch :: "string \<Rightarrow> bool" where
  "hasMatch [] = False"
| "hasMatch (c # cs) = (linkPattern (c # cs) \<noteq> None \<or> hasMatch cs)"

text \<open>
  A fragment as the scan reads it: texts in which the pattern matches nowhere, each
  followed by a matched reference attribute with its target, and a last such text.
  \<open>inText\<close> is the fragment, \<open>outText\<close> the same sequence with every attribute whose
  target does not begin with \<^verbatim>\<open>http://\<close> or \<^verbatim>\<open>https://\<close> replaced by its route.
\<close>

definition inText :: "(string \<times> string) list \<Rightarrow> string \<Rightarrow> string" where
  "inText ps lst = concat (map (\<lambda>(x, t). x @ hrefAttr t) ps) @ lst"

definition outText :: "string \<Rightarrow> (string \<times> string) list \<Rightarrow> string \<Rightarrow> string" where
  "outText d ps lst =
     concat (map (\<lambda>(x, t). x @ (if isExternal t then hrefAttr t else hrefAttr (serverRoute t d))) ps)
     @ lst"

definition scanned :: "(string \<times> string) list \<Rightarrow> string \<Rightarrow> bool" where
  "scanned ps lst =
     (list_all (\<lambda>(x, t). \<not> hasMatch x \<and> DQ \<notin> set t \<and> isDocTarget t) ps \<and> \<not> hasMatch lst)"

section \<open>More of package strings\<close>

text \<open>
  \<^verbatim>\<open>strings.Split\<close> and \<^verbatim>\<open>strings.ReplaceAll\<close> for a separator (an old text) of one
  byte, which is how the program calls them.  \<open>Split\<close> of the empty string is one empty
  string, as in Go.
\<close>

fun Split :: "string \<Rightarrow> char \<Rightarrow> string list" where
  "Split [] sep = [[]]"
| "Split (c # cs) sep =
     (if c = sep then [] # Split cs sep
      else (case Split cs sep of
              [] \<Rightarrow> [[c]]
            | x # xs \<Rightarrow> (c # x) # xs))"

definition ReplaceAll :: "string \<Rightarrow> char \<Rightarrow> string \<Rightarrow> string" where
  "ReplaceAll s old new = concat (map (\<lambda>c. if c = old then new else [c]) s)"

text \<open>
  \<^verbatim>\<open>strings.ToLower\<close> on ASCII letters.  Bytes from \<open>0x80\<close> on are left as they are: Go
  decodes them as UTF-8 and maps upper-case letters outside ASCII as well, which is not
  modelled.  The test whether a lower-cased name ends in \<^verbatim>\<open>.md\<close> is not affected (no
  letter outside ASCII has the lower case \<^verbatim>\<open>m\<close> or \<^verbatim>\<open>d\<close>); the order of names with
  bytes outside ASCII can be, and the properties below evaluate that order on ASCII
  names only.
\<close>

definition lowerByte :: "char \<Rightarrow> char" where
  "lowerByte c =
     (let n = (of_char c :: nat) in if 65 \<le> n \<and> n \<le> 90 then char_of (n + 32) else c)"

definition ToLower :: "string \<Rightarrow> string" where
  "ToLower s = map lowerByte s"

text \<open>
  \<^verbatim>\<open>filepath.Ext\<close>: the suffix of the path that starts at the last dot of its last
  element, empty when that element has no dot.  \<^verbatim>\<open>filepath.ToSlash\<close> is the identity
  where the separator is \<^verbatim>\<open>/\<close>.
\<close>

fun extRev :: "string \<Rightarrow> string \<Rightarrow> string" where
  "extRev [] acc = []"
| "extRev (c # cs) acc =
     (if c = CHR ''/'' then []
      else if c = CHR ''.'' then c # acc
      else extRev cs (c # acc))"

definition Ext :: "string \<Rightarrow> string" where
  "Ext p = extRev (rev p) []"

definition ToSlash :: "string \<Rightarrow> string" where
  "ToSlash p = p"

section \<open>Package sort\<close>

text \<open>
  \<^verbatim>\<open>sort.Slice\<close> as the insertion sort of Go's library: each element in turn moves
  left while it is less than its left neighbour.  Go sorts slices of at most 12 elements
  in exactly this way; for a longer slice it runs a pattern-defeating quicksort, whose
  result is the same whenever no two elements are equivalent under the order \<open>lt\<close>
  (the argument \<^verbatim>\<open>less\<close> of \<^verbatim>\<open>sort.Slice\<close>).  The sorted prefix is kept reversed while
  the loop runs.
\<close>

fun insertLeft :: "('a \<Rightarrow> 'a \<Rightarrow> bool) \<Rightarrow> 'a \<Rightarrow> 'a list \<Rightarrow> 'a list" where
  "insertLeft lt x [] = [x]"
| "insertLeft lt x (y # ys) = (if lt x y then y # insertLeft lt x ys else x # y # ys)"

definition sortSlice :: "('a \<Rightarrow> 'a \<Rightarrow> bool) \<Rightarrow> 'a list \<Rightarrow> 'a list" where
  "sortSlice lt xs = rev (foldl (\<lambda>acc x. insertLeft lt x acc) [] xs)"

section \<open>Package scanner: the navigation tree\<close>

record FileEntry =
  RelPath :: string
  EntryName :: string

text \<open>
  \<open>EntryName\<close> is the field \<^verbatim>\<open>Name\<close> of \<^verbatim>\<open>FileEntry\<close>; \<open>Name\<close> below is the field of
  \<^verbatim>\<open>TreeNode\<close>.  A \<^verbatim>\<open>*TreeNode\<close> is reached through its parent only, so the tree is a
  value and an update of a child returns the new parent.
\<close>

datatype TreeNode =
  TreeNode (Name: string) (Path: string) (IsDir: bool) (Children: "TreeNode list")

fun findChild :: "TreeNode list \<Rightarrow> string \<Rightarrow> nat option" where
  "findChild [] n = None"
| "findChild (c # cs) n = (if Name c = n then Some 0 else map_option Suc (findChild cs n))"

definition newChild :: "string list \<Rightarrow> FileEntry \<Rightarrow> TreeNode" where
  "newChild parts entry =
     (let isFile = (length parts = 1) in
      TreeNode (hd parts)
        (if isFile
         then (let urlPath = TrimSuffix (RelPath entry) ''.md'';
                   urlPath = TrimSuffix urlPath ''.MD''
               in ''/'' @ ToSlash urlPath)
         else [])
        (\<not> isFile) [])"

fun insertNode :: "TreeNode \<Rightarrow> string list \<Rightarrow> FileEntry \<Rightarrow> TreeNode" where
  "insertNode parent [] entry = parent"
| "insertNode (TreeNode n p d children) (part # parts) entry =
     (case findChild children part of
        None \<Rightarrow>
          (let child = newChild (part # parts) entry;
               child = (if length (part # parts) > 1 then insertNode child parts entry else child)
           in TreeNode n p d (children @ [child]))
      | Some i \<Rightarrow>
          (let child = children ! i;
               child = (if length (part # parts) > 1 then insertNode child parts entry else child)
           in TreeNode n p d (children[i := child])))"

definition nodeLess :: "TreeNode \<Rightarrow> TreeNode \<Rightarrow> bool" where
  "nodeLess a b =
     (if IsDir a \<noteq> IsDir b then IsDir a
      else ToLower (Name a) < ToLower (Name b))"

lemma set_insertLeft [simp]: "set (insertLeft lt x ys) = insert x (set ys)"
  by (induction ys) auto

lemma set_sortSlice [simp]: "set (sortSlice lt xs) = set xs"
proof -
  have "set (foldl (\<lambda>acc x. insertLeft lt x acc) acc xs) = set acc \<union> set xs" for acc
    by (induction xs arbitrary: acc) auto
  then show ?thesis by (simp add: sortSlice_def)
qed

function sortTree :: "TreeNode \<Rightarrow> TreeNode" where
  "sortTree (TreeNode n p d children) =
     TreeNode n p d (map (\<lambda>child. if IsDir child then sortTree child else child)
                       (sortSlice nodeLess children))"
  by pat_completeness auto
termination
  by (relation "measure size") (auto simp: less_Suc_eq_le size_list_estimation')

definition BuildTree :: "FileEntry list \<Rightarrow> TreeNode" where
  "BuildTree entries =
     sortTree (foldl (\<lambda>root entry. insertNode root (Split (ToSlash (RelPath entry)) CHR ''/'') entry)
                 (TreeNode ''root'' [] True []) entries)"

subsection \<open>RenderTree\<close>

definition escapeHTML :: "string \<Rightarrow> string" where
  "escapeHTML s =
     (let s = ReplaceAll s CHR ''&'' ''&amp;'';
          s = ReplaceAll s CHR ''<'' ''&lt;'';
          s = ReplaceAll s CHR ''>'' ''&gt;'';
          s = ReplaceAll s (DQ) ''&quot;''
      in s)"

text \<open>
  The \<^verbatim>\<open>strings.Builder\<close> is written to in order, so the text a call writes is the
  function's result.
\<close>

fun renderTreeNode :: "TreeNode \<Rightarrow> nat \<Rightarrow> string" where
  "renderTreeNode (TreeNode n p d children) depth =
     (if depth = 0 then
        ''<ul class='' @ [DQ] @ ''file-tree'' @ [DQ] @ ''>'' @ [LF]
        @ concat (map (\<lambda>child. renderTreeNode child (depth + 1)) children)
        @ ''</ul>'' @ [LF]
      else
        ''<li>''
        @ (if d then
             ''<span class='' @ [DQ] @ ''folder'' @ [DQ] @ ''>'' @ escapeHTML n @ ''</span>'' @ [LF]
             @ (if length children > 0 then
                  ''<ul>'' @ [LF]
                  @ concat (map (\<lambda>child. renderTreeNode child (depth + 1)) children)
                  @ ''</ul>'' @ [LF]
                else [])
           else [])
        @ (if \<not> d then
             ''<a href='' @ [DQ] @ p @ [DQ] @ '' class='' @ [DQ] @ ''file'' @ [DQ] @ ''>''
             @ escapeHTML n @ ''</a>''
           else [])
        @ ''</li>'' @ [LF])"

definition RenderTree :: "TreeNode \<Rightarrow> string" where
  "RenderTree node = renderTreeNode node 0"

section \<open>Package scanner: ScanDirectory\<close>

text \<open>
  What \<^verbatim>\<open>filepath.Walk\<close> finds at a path: a file that is not a directory (a regular
  file, or a symbolic link, which \<^verbatim>\<open>Lstat\<close> does not follow), a directory with its
  entries, a directory whose entries cannot be read, or a name for which \<^verbatim>\<open>Lstat\<close>
  fails.  \<open>entryName\<close> is the base name, \<^verbatim>\<open>info.Name()\<close>.
\<close>

datatype fsEntry =
    RegularFile (entryName: string)
  | Directory (entryName: string) (listing: "fsEntry list")
  | UnreadableDir (entryName: string)
  | NoInfo (entryName: string)

fun isDir :: "fsEntry \<Rightarrow> bool" where
  "isDir (Directory n cs) = True"
| "isDir (UnreadableDir n) = True"
| "isDir e = False"

datatype walkError = LstatError string | ReadDirError string

text \<open>
  What a \<^verbatim>\<open>WalkFunc\<close> returns: \<^verbatim>\<open>nil\<close> (\<open>NoError\<close>), \<^verbatim>\<open>filepath.SkipDir\<close> or another
  error.
\<close>

datatype walkResult = NoError | SkipDir | Failed walkError

text \<open>
  The path of a visited file is kept as the list of names below the root.  \<open>relOf\<close> is
  \<^verbatim>\<open>filepath.Rel(root, path)\<close> for such a path: the names joined by \<^verbatim>\<open>/\<close>, and \<^verbatim>\<open>.\<close> for
  the root itself.
\<close>

fun joinSlash :: "string list \<Rightarrow> string" where
  "joinSlash [] = []"
| "joinSlash [x] = x"
| "joinSlash (x # y # ys) = x @ ''/'' @ joinSlash (y # ys)"

definition relOf :: "string list \<Rightarrow> string" where
  "relOf segs = (if segs = [] then ''.'' else joinSlash segs)"

text \<open>
  The function literal that \<^verbatim>\<open>ScanDirectory\<close> passes to \<^verbatim>\<open>filepath.Walk\<close>.  It appends
  to the captured slice \<^verbatim>\<open>entries\<close>, which is passed in and returned here.  Its
  arguments are the path (as names below the root), \<^verbatim>\<open>info.Name()\<close>, \<^verbatim>\<open>info.IsDir()\<close> and
  the error.  \<^verbatim>\<open>filepath.Rel\<close> does not fail for a path that \<^verbatim>\<open>Walk\<close> made from the root,
  so that return has no branch here.
\<close>

definition scanFn ::
  "string list \<Rightarrow> string \<Rightarrow> bool \<Rightarrow> walkError option \<Rightarrow> FileEntry list
     \<Rightarrow> walkResult \<times> FileEntry list" where
  "scanFn segs name dir err entries =
     (case err of
        Some e \<Rightarrow> (Failed e, entries)
      | None \<Rightarrow>
          if HasPrefix name ''.'' then (if dir then (SkipDir, entries) else (NoError, entries))
          else if dir then (NoError, entries)
          else if \<not> HasSuffix (ToLower name) ''.md'' then (NoError, entries)
          else (NoError, entries @ [\<lparr>RelPath = relOf segs,
                                   EntryName = TrimSuffix name (Ext name)\<rparr>]))"

definition nameLess :: "fsEntry \<Rightarrow> fsEntry \<Rightarrow> bool" where
  "nameLess a b = (entryName a < entryName b)"

lemma size_insertLeft: "size_list f (insertLeft lt x ys) = Suc (f x + size_list f ys)"
  by (induction ys) auto

lemma size_sortSlice: "size_list f (sortSlice lt xs) = size_list f xs"
proof -
  have "size_list f (foldl (\<lambda>acc x. insertLeft lt x acc) acc xs) = size_list f acc + size_list f xs"
    for acc
    by (induction xs arbitrary: acc) (auto simp: size_insertLeft)
  then show ?thesis
    by (simp add: sortSlice_def size_list_conv_sum_list rev_map [symmetric])
qed

text \<open>
  \<^verbatim>\<open>walk\<close> of package \<^verbatim>\<open>filepath\<close>: a file is handed to the function; a directory is
  read first (names sorted), then handed to the function together with the read error
  if there is one, and walked only when both are \<^verbatim>\<open>nil\<close>.  Where \<^verbatim>\<open>Lstat\<close> fails for a
  name, \<^verbatim>\<open>Walk\<close> and the loop over a directory's names call the function with that
  error in place of \<^verbatim>\<open>walk\<close>: this is the equation of \<open>walk\<close> for \<open>NoInfo\<close>.
  \<open>walkNames\<close> is the loop over the names of a directory, and \<open>stopsLoop c err\<close> says
  whether the loop returns \<open>err\<close> after visiting \<open>c\<close>.
\<close>

definition stopsLoop :: "fsEntry \<Rightarrow> walkResult \<Rightarrow> bool" where
  "stopsLoop c err =
     (case c of
        NoInfo n \<Rightarrow> err \<noteq> NoError \<and> err \<noteq> SkipDir
      | _ \<Rightarrow> err \<noteq> NoError \<and> (\<not> isDir c \<or> err \<noteq> SkipDir))"

function walk :: "string list \<Rightarrow> fsEntry \<Rightarrow> FileEntry list \<Rightarrow> walkResult \<times> FileEntry list"
  and walkNames :: "string list \<Rightarrow> fsEntry list \<Rightarrow> FileEntry list \<Rightarrow> walkResult \<times> FileEntry list"
  where
  "walk segs (RegularFile n) entries = scanFn segs n False None entries"
| "walk segs (NoInfo n) entries = scanFn segs n False (Some (LstatError (relOf segs))) entries"
| "walk segs (UnreadableDir n) entries = scanFn segs n True (Some (ReadDirError (relOf segs))) entries"
| "walk segs (Directory n cs) entries =
     (case scanFn segs n True None entries of
        (NoError, entries') \<Rightarrow> walkNames segs (sortSlice nameLess cs) entries'
      | (err1, entries') \<Rightarrow> (err1, entries'))"
| "walkNames segs [] entries = (NoError, entries)"
| "walkNames segs (c # cs) entries =
     (case walk (segs @ [entryName c]) c entries of
        (err, entries') \<Rightarrow>
          if stopsLoop c err then (err, entries') else walkNames segs cs entries')"
  by pat_completeness auto
termination
  by (relation "measure (\<lambda>x. case x of Inl (segs, e, es) \<Rightarrow> size e
                                      | Inr (segs, cs, es) \<Rightarrow> size_list size cs)")
     (auto simp: size_sortSlice)

text \<open>\<^verbatim>\<open>filepath.Walk\<close>: \<^verbatim>\<open>SkipDir\<close> from the root ends the walk without an error.\<close>

definition Walk :: "fsEntry \<Rightarrow> FileEntry list \<Rightarrow> walkResult \<times> FileEntry list" where
  "Walk root entries =
     (case walk [] root entries of
        (err, entries') \<Rightarrow> (if err = SkipDir then NoError else err, entries'))"

definition entryLess :: "FileEntry \<Rightarrow> FileEntry \<Rightarrow> bool" where
  "entryLess a b = (RelPath a < RelPath b)"

definition ScanDirectory :: "fsEntry \<Rightarrow> walkError + FileEntry list" where
  "ScanDirectory root =
     (case Walk root [] of
        (Failed e, entries) \<Rightarrow> Inl e
      | (_, entries) \<Rightarrow> Inr (sortSlice entryLess entries))"

text \<open>
  Notions used to state properties of the scan.  A file system gives no name that holds
  a \<^verbatim>\<open>/\<close>: \<open>wfEntry\<close> says so of every name in a tree.  A name is hidden when it begins
  with a dot, and a relative path is visible when none of its segments is hidden.
\<close>

fun wfEntry :: "fsEntry \<Rightarrow> bool" where
  "wfEntry (RegularFile n) = (CHR ''/'' \<notin> set n)"
| "wfEntry (Directory n cs) = (CHR ''/'' \<notin> set n \<and> list_all wfEntry cs)"
| "wfEntry (UnreadableDir n) = (CHR ''/'' \<notin> set n)"
| "wfEntry (NoInfo n) = (CHR ''/'' \<notin> set n)"

definition hiddenName :: "string \<Rightarrow> bool" where
  "hiddenName n = HasPrefix n ''.''"

definition visiblePath :: "string \<Rightarrow> bool" where
  "visiblePath p = list_all (\<lambda>seg. \<not> hiddenName seg) (Split p CHR ''/'')"

definition visibleSeg :: "string \<Rightarrow> bool" where
  "visibleSeg s = (\<not> hiddenName s \<and> CHR ''/'' \<notin> set s)"

section \<open>Package strings: trimming and searching\<close>

text \<open>
  \<^verbatim>\<open>strings.TrimSpace\<close> removes the leading and the trailing white space as
  \<^verbatim>\<open>unicode.IsSpace\<close> defines it.  \<open>spaceRunes\<close> lists the UTF-8 encodings of these
  code points: the six ASCII ones, U+0085, U+00A0, U+1680, U+2000 to U+200A, U+2028,
  U+2029, U+202F, U+205F and U+3000.  A byte that does not start (or end) one of
  these encodings stops the trimming, as an invalid or a non-space rune does in Go.
\<close>

definition spaceRunes :: "string list" where
  "spaceRunes =
     [[CHR 0x09], [CHR 0x0A], [CHR 0x0B], [CHR 0x0C], [CHR 0x0D], [CHR 0x20],
      [CHR 0xC2, CHR 0x85], [CHR 0xC2, CHR 0xA0],
      [CHR 0xE1, CHR 0x9A, CHR 0x80],
      [CHR 0xE2, CHR 0x80, CHR 0x80], [CHR 0xE2, CHR 0x80, CHR 0x81],
      [CHR 0xE2, CHR 0x80, CHR 0x82], [CHR 0xE2, CHR 0x80, CHR 0x83],
      [CHR 0xE2, CHR 0x80, CHR 0x84], [CHR 0xE2, CHR 0x80, CHR 0x85],
      [CHR 0xE2, CHR 0x80, CHR 0x86], [CHR 0xE2, CHR 0x80, CHR 0x87],
      [CHR 0xE2, CHR 0x80, CHR 0x88], [CHR 0xE2, CHR 0x80, CHR 0x89],
      [CHR 0xE2, CHR 0x80, CHR 0x8A],
      [CHR 0xE2, CHR 0x80, CHR 0xA8], [CHR 0xE2, CHR 0x80, CHR 0xA9],
      [CHR 0xE2, CHR 0x80, CHR 0xAF],
      [CHR 0xE2, CHR 0x81, CHR 0x9F],
      [CHR 0xE3, CHR 0x80, CHR 0x80]]"

definition leadingSpace :: "string \<Rightarrow> nat" where
  "leadingSpace s = (case find (\<lambda>p. prefix p s) spaceRunes of None \<Rightarrow> 0 | Some p \<Rightarrow> length p)"

definition trailingSpace :: "string \<Rightarrow> nat" where
  "trailingSpace s = (case find (\<lambda>p. suffix p s) spaceRunes of None \<Rightarrow> 0 | Some p \<Rightarrow> length p)"

lemma leadingSpace_Nil: "leadingSpace [] = 0"
  by (simp add: leadingSpace_def spaceRunes_def)

lemma trailingSpace_Nil: "trailingSpace [] = 0"
  by (simp add: trailingSpace_def spaceRunes_def)

function TrimLeftSpace :: "string \<Rightarrow> string" where
  "TrimLeftSpace s = (if leadingSpace s = 0 then s else TrimLeftSpace (drop (leadingSpace s) s))"
  by pat_completeness auto
termination
proof (relation "measure length")
  fix s :: string
  assume "leadingSpace s \<noteq> 0"
  then have "s \<noteq> []" using leadingSpace_Nil by auto
  with \<open>leadingSpace s \<noteq> 0\<close> show "(drop (leadingSpace s) s, s) \<in> measure length"
    by simp
qed simp

function TrimRightSpace :: "string \<Rightarrow> string" where
  "TrimRightSpace s =
     (if trailingSpace s = 0 then s else TrimRightSpace (take (length s - trailingSpace s) s))"
  by pat_completeness auto
termination
proof (relation "measure length")
  fix s :: string
  assume "trailingSpace s \<noteq> 0"
  then have "s \<noteq> []" using trailingSpace_Nil by auto
  with \<open>trailingSpace s \<noteq> 0\<close> show "(take (length s - trailingSpace s) s, s) \<in> measure length"
    by simp
qed simp

declare TrimLeftSpace.simps [simp del] TrimRightSpace.simps [simp del]

definition TrimSpace :: "string \<Rightarrow> string" where
  "TrimSpace s = TrimRightSpace (TrimLeftSpace s)"

text \<open>\<^verbatim>\<open>strings.Trim\<close> for a cutset of ASCII bytes: byte by byte from both ends.\<close>

definition Trim :: "string \<Rightarrow> string \<Rightarrow> string" where
  "Trim s cutset =
     rev (dropWhile (\<lambda>c. c \<in> set cutset) (rev (dropWhile (\<lambda>c. c \<in> set cutset) s)))"

text \<open>\<^verbatim>\<open>strings.Index\<close>, with \<open>None\<close> for \<open>-1\<close>.\<close>

fun Index :: "string \<Rightarrow> string \<Rightarrow> nat option" where
  "Index [] sub = (if sub = [] then Some 0 else None)"
| "Index (c # cs) sub =
     (if prefix sub (c # cs) then Some 0 else map_option Suc (Index cs sub))"

text \<open>\<^verbatim>\<open>strings.SplitN(s, sep, 2)\<close> for a separator of one byte.\<close>

definition SplitN2 :: "string \<Rightarrow> char \<Rightarrow> string list" where
  "SplitN2 s sep =
     (if sep \<in> set s then [takeWhile (\<lambda>c. c \<noteq> sep) s, tl (dropWhile (\<lambda>c. c \<noteq> sep) s)]
      else [s])"

section \<open>Package renderer: ParseFrontmatter\<close>

record Frontmatter =
  Title :: string
  Author :: string

text \<open>The body of the loop over the lines of the block.\<close>

definition frontmatterLine :: "Frontmatter \<Rightarrow> string \<Rightarrow> Frontmatter" where
  "frontmatterLine fm line0 =
     (let line = TrimSpace line0 in
      if line = [] then fm
      else
        (let parts = SplitN2 line CHR '':'' in
         if length parts \<noteq> 2 then fm
         else
           (let key = TrimSpace (parts ! 0);
                val = TrimSpace (parts ! 1);
                val = Trim val [DQ, CHR 0x27]
            in if ToLower key = ''title'' then fm\<lparr>Title := val\<rparr>
               else if ToLower key = ''author'' then fm\<lparr>Author := val\<rparr>
               else fm)))"

definition delimLF :: string where
  "delimLF = ''---'' @ [LF]"

definition delimCRLF :: string where
  "delimCRLF = ''---'' @ [CR, LF]"

definition closing :: string where
  "closing = LF # ''---''"

definition ParseFrontmatter :: "string \<Rightarrow> Frontmatter \<times> string" where
  "ParseFrontmatter content =
     (let fm = \<lparr>Title = [], Author = []\<rparr>; text = content in
      if \<not> HasPrefix text delimLF \<and> \<not> HasPrefix text delimCRLF then (fm, content)
      else
        (let endIndex =
               (if HasPrefix text delimCRLF
                then map_option (\<lambda>i. i + 5) (Index (drop 5 text) closing)
                else map_option (\<lambda>i. i + 4) (Index (drop 4 text) closing))
         in case endIndex of
              None \<Rightarrow> (fm, content)
            | Some endIndex \<Rightarrow>
                (let fmBlock =
                       (if HasPrefix text delimCRLF then drop 5 (take endIndex text)
                        else drop 4 (take endIndex text));
                     fm = foldl frontmatterLine fm (Split fmBlock LF);
                     remaining = drop (endIndex + 4) text;
                     remaining =
                       (if HasPrefix remaining [CR, LF] then drop 2 remaining
                        else if HasPrefix remaining [LF] then drop 1 remaining
                        else remaining)
                 in (fm, remaining))))"












section \<open>Properties of RewriteLinks\<close>

subsection \<open>The scan, one match at a time\<close>

lemma hrefOpen_unfold: "hrefOpen = [CHR ''h'', CHR ''r'', CHR ''e'', CHR ''f'', CHR ''='', DQ]"
  by (simp add: hrefOpen_def)

lemma linkPattern_href:
  "linkPattern (hrefOpen @ r) =
     (if dropWhile notQuote r \<noteq> [] \<and> isDocTarget (takeWhile notQuote r)
      then Some (takeWhile notQuote r, tl (dropWhile notQuote r)) else None)"
proof -
  have "drop 6 (hrefOpen @ r) = r" by (simp add: hrefOpen_def)
  then show ?thesis
    by (simp add: linkPattern_def HasPrefix_def Let_def)
qed

lemma linkPattern_here:
  assumes "\<forall>c \<in> set t. notQuote c" "isDocTarget t"
  shows "linkPattern (hrefOpen @ t @ DQ # post) = Some (t, post)"
proof -
  have nq: "\<not> notQuote (DQ)" by (simp add: notQuote_def)
  have tw: "takeWhile notQuote (t @ DQ # post) = t"
    using assms(1) nq by (simp add: takeWhile_append2)
  have dw: "dropWhile notQuote (t @ DQ # post) = DQ # post"
    using assms(1) nq by (simp add: dropWhile_append2)
  show ?thesis
    unfolding linkPattern_href tw dw using assms(2) by simp
qed

lemma linkPattern_Some_prefix:
  "linkPattern s = Some a \<Longrightarrow> \<exists>r. s = hrefOpen @ r"
  by (auto simp: linkPattern_def HasPrefix_def prefix_def split: if_splits)

lemma linkPattern_append:
  assumes "linkPattern s = Some (t, r)"
  shows "linkPattern (s @ x) = Some (t, r @ x)"
proof -
  from assms obtain r0 where s: "s = hrefOpen @ r0"
    using linkPattern_Some_prefix by blast
  from assms have ne: "dropWhile notQuote r0 \<noteq> []"
    and d: "isDocTarget (takeWhile notQuote r0)"
    and t: "t = takeWhile notQuote r0"
    and r: "r = tl (dropWhile notQuote r0)"
    unfolding s linkPattern_href by (auto split: if_splits)
  from ne obtain q where q: "q \<in> set r0" "\<not> notQuote q"
    by (auto simp: dropWhile_eq_Nil_conv)
  have tw: "takeWhile notQuote (r0 @ x) = takeWhile notQuote r0"
    using q by (simp add: takeWhile_append1)
  have dw: "dropWhile notQuote (r0 @ x) = dropWhile notQuote r0 @ x"
    using q by (simp add: dropWhile_append1)
  have "linkPattern (hrefOpen @ (r0 @ x)) = Some (t, r @ x)"
    unfolding linkPattern_href tw dw using ne d t r by simp
  then show ?thesis by (simp add: s)
qed

lemma not_doc_href: "\<not> isDocTarget (r @ ''href='')"
  by (simp add: isDocTarget_def HasSuffix_def suffix_def)

lemma hrefOpen_no_border:
  assumes "s \<noteq> []" "\<not> prefix hrefOpen s"
  shows "\<not> prefix hrefOpen (s @ hrefOpen @ y)"
proof
  assume "prefix hrefOpen (s @ hrefOpen @ y)"
  with assms(2) obtain us where us: "hrefOpen = s @ us" "prefix us (hrefOpen @ y)"
    by (auto simp: prefix_append)
  from us(1) assms(1) have "us = [] \<or> us = ''ref='' @ [DQ] \<or> us = ''ef='' @ [DQ] \<or> us = ''f='' @ [DQ]
      \<or> us = ''='' @ [DQ] \<or> us = [DQ]"
    by (auto simp: hrefOpen_unfold append_eq_Cons_conv Cons_eq_append_conv)
  with us(2) have "us = []"
    by (auto simp: hrefOpen_unfold)
  with us(1) assms(2) show False by simp
qed

lemma linkPattern_None_append:
  assumes "s \<noteq> []" "linkPattern s = None"
  shows "linkPattern (s @ hrefOpen @ y) = None"
proof (cases "prefix hrefOpen s")
  case False
  with assms(1) have "\<not> prefix hrefOpen (s @ hrefOpen @ y)"
    by (rule hrefOpen_no_border)
  then show ?thesis by (simp add: linkPattern_def HasPrefix_def)
next
  case True
  then have len: "6 \<le> length s" by (auto simp: prefix_def hrefOpen_def)
  let ?r = "drop 6 s"
  show ?thesis
  proof (cases "\<forall>c \<in> set ?r. notQuote c")
    case True
    have nq: "\<not> notQuote (DQ)" by (simp add: notQuote_def)
    have e: "?r @ hrefOpen @ y = (?r @ ''href='') @ DQ # y" by (simp add: hrefOpen_def)
    have a: "\<And>c. c \<in> set (?r @ ''href='') \<Longrightarrow> notQuote c"
      using True by (auto simp: notQuote_def)
    have "takeWhile notQuote (?r @ hrefOpen @ y) = ?r @ ''href=''"
      unfolding e using nq a by (simp only: takeWhile_append2 takeWhile.simps if_False append_Nil2)
    then show ?thesis
      using len not_doc_href[of ?r] by (simp add: linkPattern_def Let_def)
  next
    case False
    then obtain q where q: "q \<in> set ?r" "\<not> notQuote q" by blast
    have tw: "takeWhile notQuote (?r @ hrefOpen @ y) = takeWhile notQuote ?r"
      using q by (simp add: takeWhile_append1)
    have dw: "dropWhile notQuote ?r \<noteq> []"
      using q by (auto simp: dropWhile_eq_Nil_conv)
    from assms(2) True dw have "\<not> isDocTarget (takeWhile notQuote ?r)"
      by (auto simp: linkPattern_def HasPrefix_def Let_def split: if_splits)
    then show ?thesis
      using len tw by (simp add: linkPattern_def Let_def)
  qed
qed

lemma RewriteLinks_Nil: "RewriteLinks [] d = []"
  by (simp add: RewriteLinks.simps)

lemma RewriteLinks_match:
  "linkPattern s = Some (t, rest) \<Longrightarrow> RewriteLinks s d = rewriteMatch t d @ RewriteLinks rest d"
  by (cases s) (auto simp: linkPattern_def HasPrefix_def hrefOpen_def RewriteLinks.simps)

lemma RewriteLinks_copy:
  "linkPattern (c # cs) = None \<Longrightarrow> RewriteLinks (c # cs) d = c # RewriteLinks cs d"
  by (simp add: RewriteLinks.simps)

lemma RewriteLinks_href:
  assumes "\<forall>c \<in> set t. notQuote c" "isDocTarget t"
  shows "RewriteLinks (pre @ hrefOpen @ t @ DQ # post) d
       = RewriteLinks pre d @ rewriteMatch t d @ RewriteLinks post d"
proof (induction pre d rule: RewriteLinks.induct)
  case (1 pre d)
  show ?case
  proof (cases pre)
    case Nil
    then show ?thesis
      using linkPattern_here[OF assms, of post] by (simp add: RewriteLinks_match RewriteLinks_Nil)
  next
    case (Cons c cs)
    show ?thesis
    proof (cases "linkPattern pre")
      case None
      then have "linkPattern (pre @ hrefOpen @ t @ DQ # post) = None"
        using Cons linkPattern_None_append[of pre] by simp
      then have "RewriteLinks (pre @ hrefOpen @ t @ DQ # post) d
          = c # RewriteLinks (cs @ hrefOpen @ t @ DQ # post) d"
        using Cons RewriteLinks_copy[of c "cs @ hrefOpen @ t @ DQ # post" d] by simp
      moreover have "RewriteLinks pre d = c # RewriteLinks cs d"
        using None Cons RewriteLinks_copy[of c cs d] by simp
      ultimately show ?thesis
        using "1.IH"(1)[OF Cons None] by simp
    next
      case (Some a)
      obtain u rest where a: "a = (u, rest)" by (cases a)
      have m: "linkPattern (pre @ hrefOpen @ t @ DQ # post) = Some (u, rest @ hrefOpen @ t @ DQ # post)"
        using Some a by (simp add: linkPattern_append)
      show ?thesis
        using "1.IH"(2)[OF Cons Some a[symmetric]] Some a
        by (simp add: RewriteLinks_match[OF m] RewriteLinks_match[of pre u rest])
    qed
  qed
qed

lemma serverRoute_rooted: "HasPrefix (serverRoute t d) ''/''"
  by (simp add: serverRoute_def Let_def HasPrefix_def)

lemma RewriteLinks_no_match: "\<not> hasMatch s \<Longrightarrow> RewriteLinks s d = s"
proof (induction s)
  case Nil
  show ?case by (rule RewriteLinks_Nil)
next
  case (Cons c cs)
  from Cons.prems have n: "linkPattern (c # cs) = None"
    by (cases "linkPattern (c # cs)") auto
  from Cons.prems have h: "\<not> hasMatch cs"
    by simp
  show ?case
    using RewriteLinks_copy[OF n, of d] Cons.IH[OF h] by simp
qed

subsection \<open>The fragment as a sequence of texts and matches\<close>

lemma rewriteMatch_alt:
  "rewriteMatch t d = (if isExternal t then hrefAttr t else hrefAttr (serverRoute t d))"
  by (simp add: rewriteMatch_def hrefAttr_def)

lemma RewriteLinks_pieces:
  "scanned ps lst \<Longrightarrow> RewriteLinks (inText ps lst) d = outText d ps lst"
proof (induction ps)
  case Nil
  then show ?case
    by (simp add: scanned_def inText_def outText_def RewriteLinks_no_match)
next
  case (Cons p ps)
  obtain x t where p: "p = (x, t)" by (cases p)
  from Cons.prems have x: "\<not> hasMatch x" and q: "\<forall>c \<in> set t. notQuote c" and dt: "isDocTarget t"
    and rest: "scanned ps lst"
    by (auto simp: scanned_def p notQuote_def)
  have "RewriteLinks (x @ hrefOpen @ t @ DQ # inText ps lst) d
          = RewriteLinks x d @ rewriteMatch t d @ RewriteLinks (inText ps lst) d"
    using q dt by (rule RewriteLinks_href)
  then have "RewriteLinks (inText (p # ps) lst) d = x @ rewriteMatch t d @ outText d ps lst"
    using Cons.IH[OF rest] RewriteLinks_no_match[OF x]
    by (simp add: inText_def p hrefAttr_def)
  then show ?case
    by (simp add: outText_def p rewriteMatch_alt)
qed

lemma linkPattern_Some_eq:
  assumes "linkPattern s = Some (t, rest)"
  shows "s = hrefAttr t @ rest \<and> DQ \<notin> set t \<and> isDocTarget t"
proof -
  from assms obtain r0 where s: "s = hrefOpen @ r0"
    using linkPattern_Some_prefix by blast
  from assms have ne: "dropWhile notQuote r0 \<noteq> []"
    and d: "isDocTarget (takeWhile notQuote r0)"
    and t: "t = takeWhile notQuote r0"
    and r: "rest = tl (dropWhile notQuote r0)"
    unfolding s linkPattern_href by (auto split: if_splits)
  from ne have "hd (dropWhile notQuote r0) = DQ"
    using hd_dropWhile[of notQuote r0] by (simp add: notQuote_def)
  with ne r have dq: "dropWhile notQuote r0 = DQ # rest"
    by (cases "dropWhile notQuote r0") auto
  have "r0 = takeWhile notQuote r0 @ dropWhile notQuote r0" by simp
  then have "r0 = t @ DQ # rest" using t dq by simp
  moreover have "DQ \<notin> set t"
    unfolding t using set_takeWhileD[of DQ notQuote r0] by (auto simp: notQuote_def)
  ultimately show ?thesis
    using s d t by (simp add: hrefAttr_def)
qed

lemma hasMatch_Cons_text:
  assumes "linkPattern (c # cs) = None" "cs = x @ y" "\<not> hasMatch x"
  shows "\<not> hasMatch (c # x)"
proof -
  have "linkPattern (c # x) = None"
  proof (cases "linkPattern (c # x)")
    case None
    then show ?thesis .
  next
    case (Some a)
    obtain u r where "a = (u, r)" by (cases a)
    with Some have "linkPattern (c # x) = Some (u, r)" by simp
    then have "linkPattern ((c # x) @ y) = Some (u, r @ y)"
      by (rule linkPattern_append)
    with assms(1,2) show ?thesis by simp
  qed
  then show ?thesis using assms(3) by simp
qed

lemma scan_exists:
  "\<exists>ps lst. scanned ps lst \<and> s = inText ps lst"
proof (induction s "[] :: string" rule: RewriteLinks.induct)
  case (1 s)
  show ?case
  proof (cases s)
    case Nil
    have "scanned [] [] \<and> s = inText [] []"
      by (simp add: scanned_def inText_def Nil)
    then show ?thesis by blast
  next
    case (Cons c cs)
    show ?thesis
    proof (cases "linkPattern s")
      case None
      from "1.hyps"(1)[OF Cons None] obtain ps lst where ps: "scanned ps lst" "cs = inText ps lst"
        by blast
      show ?thesis
      proof (cases ps)
        case Nil
        then have "\<not> hasMatch (c # lst)"
          using None Cons ps by (simp add: scanned_def inText_def)
        then have "scanned [] (c # lst) \<and> s = inText [] (c # lst)"
          using Cons ps Nil by (simp add: scanned_def inText_def)
        then show ?thesis by blast
      next
        case (Cons p ps')
        obtain x t where p: "p = (x, t)" by (cases p)
        have cs: "cs = x @ (hrefOpen @ t @ DQ # inText ps' lst)"
          using ps(2) Cons p by (simp add: inText_def hrefAttr_def)
        have nx: "\<not> hasMatch x"
          using ps(1) Cons p by (simp add: scanned_def)
        have "\<not> hasMatch (c # x)"
          using None \<open>s = c # cs\<close> cs nx
          by (intro hasMatch_Cons_text[of c cs x "hrefOpen @ t @ DQ # inText ps' lst"]) auto
        then have "scanned ((c # x, t) # ps') lst \<and> s = inText ((c # x, t) # ps') lst"
          using ps Cons p \<open>s = c # cs\<close> by (simp add: scanned_def inText_def)
        then show ?thesis by blast
      qed
    next
      case (Some a)
      obtain t rest where a: "a = (t, rest)" by (cases a)
      from "1.hyps"(2)[OF Cons Some a[symmetric]] obtain ps lst
        where ps: "scanned ps lst" "rest = inText ps lst"
        by blast
      have e: "s = hrefAttr t @ rest \<and> DQ \<notin> set t \<and> isDocTarget t"
        using Some a linkPattern_Some_eq by simp
      then have "scanned (([], t) # ps) lst \<and> s = inText (([], t) # ps) lst"
        using ps by (simp add: scanned_def inText_def)
      then show ?thesis by blast
    qed
  qed
qed




subsection \<open>Claims about RewriteLinks\<close>

text \<open>
  Claim C1 (as amended).  Rewriting the fragment \<^verbatim>\<open>href="../README.md"\<close> with current
  directory \<^verbatim>\<open>docs/sub\<close> yields \<^verbatim>\<open>href="/docs/README"\<close>: the relative target is
  joined onto the current document's directory (\<^verbatim>\<open>docs/sub/../README.md\<close>), the \<^verbatim>\<open>..\<close>
  segment removes \<^verbatim>\<open>sub\<close> only (giving \<^verbatim>\<open>docs/README.md\<close>), the extension is
  stripped and a leading \<^verbatim>\<open>/\<close> is attached.  The route \<^verbatim>\<open>/README\<close> is the result for
  the current directory \<^verbatim>\<open>docs\<close>.
\<close>

theorem C1_parent_link_route:
  "RewriteLinks (hrefAttr ''../README.md'') ''docs/sub'' = hrefAttr ''/docs/README''
   \<and> Join ''docs/sub'' ''../README.md'' = ''docs/README.md''
   \<and> RewriteLinks (hrefAttr ''../README.md'') ''docs'' = hrefAttr ''/README''"
  by code_simp

text \<open>
  Claim C1 as stated fails: the result for current directory \<^verbatim>\<open>docs/sub\<close> is not
  \<^verbatim>\<open>href="/README"\<close>.
\<close>

theorem C1_counterexample:
  "RewriteLinks (hrefAttr ''../README.md'') ''docs/sub'' \<noteq> hrefAttr ''/README''"
  by code_simp




text \<open>
  Claim C8 (as amended).  In a fragment that holds a reference to \<^verbatim>\<open>external.md\<close> and a
  reference to a target \<open>t\<close> that begins with \<^verbatim>\<open>http://\<close> or \<^verbatim>\<open>https://\<close> (such as
  \<^verbatim>\<open>https://example.com/page.md\<close>), in either order and with any text \<open>pre\<close>, \<open>mid\<close>,
  \<open>post\<close> around them, RewriteLinks replaces the former by its server route (which
  differs from it) and returns the latter byte for byte, the surrounding texts being
  rewritten each on its own.  And every fragment \<open>s\<close> is a sequence of texts and
  matched reference attributes of which RewriteLinks returns the texts unchanged, the
  attributes with a target that begins with \<^verbatim>\<open>http://\<close> or \<^verbatim>\<open>https://\<close> unchanged, and
  each other attribute with its target replaced by the route.
\<close>

theorem C8_only_internal_changed:
  assumes "DQ \<notin> set t"
    and "HasSuffix t ''.md'' \<or> HasSuffix t ''.MD''"
    and "HasPrefix t ''http://'' \<or> HasPrefix t ''https://''"
  shows "RewriteLinks (pre @ hrefAttr ''external.md'' @ mid @ hrefAttr t @ post) currentDir
           = RewriteLinks pre currentDir @ hrefAttr (serverRoute ''external.md'' currentDir)
               @ RewriteLinks mid currentDir @ hrefAttr t @ RewriteLinks post currentDir
         \<and> RewriteLinks (pre @ hrefAttr t @ mid @ hrefAttr ''external.md'' @ post) currentDir
           = RewriteLinks pre currentDir @ hrefAttr t @ RewriteLinks mid currentDir
               @ hrefAttr (serverRoute ''external.md'' currentDir) @ RewriteLinks post currentDir
         \<and> hrefAttr (serverRoute ''external.md'' currentDir) \<noteq> hrefAttr ''external.md''
         \<and> (\<exists>ps lst. scanned ps lst \<and> s = inText ps lst
                \<and> RewriteLinks s currentDir = outText currentDir ps lst)"
proof -
  have q: "\<forall>c \<in> set t. notQuote c"
    using assms(1) by (auto simp: notQuote_def)
  have d: "isDocTarget t"
    using assms(2) by (simp add: isDocTarget_def)
  have r: "rewriteMatch t currentDir = hrefAttr t"
    using assms(3) by (simp add: rewriteMatch_def isExternal_def hrefAttr_def)
  have qe: "\<forall>c \<in> set ''external.md''. notQuote c"
    by (simp add: notQuote_def)
  have de: "isDocTarget ''external.md''"
    by (simp add: isDocTarget_def HasSuffix_def suffix_def)
  have re: "rewriteMatch ''external.md'' currentDir = hrefAttr (serverRoute ''external.md'' currentDir)"
    by (simp add: rewriteMatch_def isExternal_def hrefAttr_def HasPrefix_def)
  have T: "\<And>a b. RewriteLinks (a @ hrefAttr t @ b) currentDir
             = RewriteLinks a currentDir @ hrefAttr t @ RewriteLinks b currentDir"
    using RewriteLinks_href[OF q d] r by (simp add: hrefAttr_def)
  have E: "\<And>a b. RewriteLinks (a @ hrefAttr ''external.md'' @ b) currentDir
             = RewriteLinks a currentDir @ hrefAttr (serverRoute ''external.md'' currentDir)
                 @ RewriteLinks b currentDir"
    using RewriteLinks_href[OF qe de] re by (simp add: hrefAttr_def)
  have 1: "RewriteLinks (pre @ hrefAttr ''external.md'' @ mid @ hrefAttr t @ post) currentDir
           = RewriteLinks pre currentDir @ hrefAttr (serverRoute ''external.md'' currentDir)
               @ RewriteLinks mid currentDir @ hrefAttr t @ RewriteLinks post currentDir"
    by (simp only: E T)
  have 2: "RewriteLinks (pre @ hrefAttr t @ mid @ hrefAttr ''external.md'' @ post) currentDir
           = RewriteLinks pre currentDir @ hrefAttr t @ RewriteLinks mid currentDir
               @ hrefAttr (serverRoute ''external.md'' currentDir) @ RewriteLinks post currentDir"
    by (simp only: E T)
  have 3: "hrefAttr (serverRoute ''external.md'' currentDir) \<noteq> hrefAttr ''external.md''"
    using serverRoute_rooted[of "''external.md''" currentDir]
    by (auto simp: hrefAttr_def HasPrefix_def)
  have 4: "\<exists>ps lst. scanned ps lst \<and> s = inText ps lst
                \<and> RewriteLinks s currentDir = outText currentDir ps lst"
    using scan_exists[of s] RewriteLinks_pieces by blast
  show ?thesis
    using 1 2 3 4 by blast
qed

theorem C8_only_internal_changed_witness:
  "DQ \<notin> set ''https://example.com/page.md''
   \<and> HasSuffix ''https://example.com/page.md'' ''.md''
   \<and> HasPrefix ''https://example.com/page.md'' ''https://''
   \<and> RewriteLinks (''<a '' @ hrefAttr ''external.md'' @ ''>x</a> <a ''
          @ hrefAttr ''https://example.com/page.md'' @ ''>y</a>'') ''docs''
       = ''<a '' @ hrefAttr ''/docs/external'' @ ''>x</a> <a ''
          @ hrefAttr ''https://example.com/page.md'' @ ''>y</a>''"
proof -
  let ?t = "''https://example.com/page.md''"
  have h1: "DQ \<notin> set ?t" by simp
  have h2: "HasSuffix ?t ''.md''" by code_simp
  have h3: "HasPrefix ?t ''https://''" by code_simp
  have f1: "RewriteLinks ''<a '' ''docs'' = ''<a ''" by code_simp
  have f2: "RewriteLinks ''>x</a> <a '' ''docs'' = ''>x</a> <a ''" by code_simp
  have f3: "RewriteLinks ''>y</a>'' ''docs'' = ''>y</a>''" by code_simp
  have e: "serverRoute ''external.md'' ''docs'' = ''/docs/external''" by code_simp
  have "RewriteLinks (''<a '' @ hrefAttr ''external.md'' @ ''>x</a> <a ''
          @ hrefAttr ?t @ ''>y</a>'') ''docs''
       = RewriteLinks ''<a '' ''docs'' @ hrefAttr (serverRoute ''external.md'' ''docs'')
          @ RewriteLinks ''>x</a> <a '' ''docs'' @ hrefAttr ?t @ RewriteLinks ''>y</a>'' ''docs''"
    using C8_only_internal_changed[of ?t "''<a ''" "''>x</a> <a ''" "''>y</a>''" "''docs''" "[]"]
      h1 h2 h3 by blast
  then show ?thesis
    unfolding f1 f2 f3 e using h1 h2 h3 by blast
qed

text \<open>
  Claim C8 as stated fails: a target that begins with another network scheme prefix, or
  with \<^verbatim>\<open>http://\<close> in upper case, is not left unchanged.  It is resolved against the
  current directory like a relative target.
\<close>

theorem C8_counterexample:
  "RewriteLinks (hrefAttr ''ftp://example.com/page.md'') ''docs''
     = hrefAttr ''/docs/ftp:/example.com/page''
   \<and> RewriteLinks (hrefAttr ''HTTP://x/a.md'') ''docs'' = hrefAttr ''/docs/HTTP:/x/a''
   \<and> RewriteLinks (hrefAttr ''ftp://example.com/page.md'') ''docs''
     \<noteq> hrefAttr ''ftp://example.com/page.md''"
  by code_simp

section \<open>Properties of ScanDirectory\<close>

lemma Split_no_sep: "sep \<notin> set s \<Longrightarrow> Split s sep = [s]"
  by (induction s) auto

lemma Split_append_sep: "sep \<notin> set a \<Longrightarrow> Split (a @ sep # b) sep = a # Split b sep"
  by (induction a) auto

lemma Split_joinSlash:
  "segs \<noteq> [] \<Longrightarrow> \<forall>s \<in> set segs. CHR ''/'' \<notin> set s \<Longrightarrow> Split (joinSlash segs) CHR ''/'' = segs"
proof (induction segs rule: joinSlash.induct)
  case 1
  then show ?case by simp
next
  case (2 x)
  then show ?case by (simp add: Split_no_sep)
next
  case (3 x y ys)
  then show ?case by (simp add: Split_append_sep)
qed

lemma visiblePath_relOf:
  assumes "segs \<noteq> []" "\<forall>s \<in> set segs. visibleSeg s"
  shows "visiblePath (relOf segs)"
proof -
  have "Split (joinSlash segs) CHR ''/'' = segs"
    using assms by (intro Split_joinSlash) (auto simp: visibleSeg_def)
  then show ?thesis
    using assms by (simp add: visiblePath_def relOf_def list_all_iff visibleSeg_def)
qed

lemma scanFn_visible:
  assumes "scanFn segs n d err es = (r, es')"
    and "\<forall>e \<in> set es. visiblePath (RelPath e)"
    and "segs \<noteq> []" "\<forall>s \<in> set (butlast segs). visibleSeg s" "last segs = n" "CHR ''/'' \<notin> set n"
  shows "\<forall>e \<in> set es'. visiblePath (RelPath e)"
proof (cases "hiddenName n \<or> err \<noteq> None \<or> d \<or> \<not> HasSuffix (ToLower n) ''.md''")
  case True
  then have "es' = es"
    using assms(1) by (auto simp: scanFn_def hiddenName_def split: option.splits if_splits)
  then show ?thesis using assms(2) by simp
next
  case False
  then have es': "es' = es @ [\<lparr>RelPath = relOf segs, EntryName = TrimSuffix n (Ext n)\<rparr>]"
    using assms(1) by (auto simp: scanFn_def hiddenName_def split: option.splits if_splits)
  have "visibleSeg n" using False assms(6) by (simp add: visibleSeg_def)
  then have "\<forall>s \<in> set (butlast segs @ [last segs]). visibleSeg s"
    using assms(4,5) by auto
  then have "\<forall>s \<in> set segs. visibleSeg s"
    using assms(3) by simp
  then have "visiblePath (relOf segs)"
    using assms(3) by (intro visiblePath_relOf)
  then show ?thesis using es' assms(2) by auto
qed

lemma scanFn_Nil_dir:
  "scanFn segs n True None es = (NoError, es') \<Longrightarrow> \<not> hiddenName n \<and> es' = es"
  by (auto simp: scanFn_def hiddenName_def split: if_splits)

lemma scanFn_dir_entries:
  "scanFn segs n True err es = (r, es') \<Longrightarrow> es' = es"
  by (auto simp: scanFn_def split: option.splits if_splits)

lemma walk_visible:
  "walk segs node es = (r, es') \<Longrightarrow> segs \<noteq> [] \<Longrightarrow> \<forall>s \<in> set (butlast segs). visibleSeg s \<Longrightarrow>
     last segs = entryName node \<Longrightarrow> wfEntry node \<Longrightarrow> \<forall>e \<in> set es. visiblePath (RelPath e) \<Longrightarrow>
     \<forall>e \<in> set es'. visiblePath (RelPath e)"
  and walkNames_visible:
  "walkNames segs cs es = (r, es') \<Longrightarrow> \<forall>s \<in> set segs. visibleSeg s \<Longrightarrow>
     list_all wfEntry cs \<Longrightarrow> \<forall>e \<in> set es. visiblePath (RelPath e) \<Longrightarrow>
     \<forall>e \<in> set es'. visiblePath (RelPath e)"
proof (induction segs node es and segs cs es arbitrary: r es' and r es' rule: walk_walkNames.induct)
  case (1 segs n entries)
  then show ?case using scanFn_visible[of segs n False None entries r es'] by simp
next
  case (2 segs n entries)
  then show ?case
    using scanFn_visible[of segs n False "Some (LstatError (relOf segs))" entries r es'] by simp
next
  case (3 segs n entries)
  then show ?case
    using scanFn_visible[of segs n True "Some (ReadDirError (relOf segs))" entries r es'] by simp
next
  case (4 segs n cs entries)
  obtain r1 es1 where s: "scanFn segs n True None entries = (r1, es1)"
    by (cases "scanFn segs n True None entries")
  have es1: "es1 = entries" using s by (rule scanFn_dir_entries)
  show ?case
  proof (cases "r1 = NoError")
    case False
    then have "es' = es1"
      using "4.prems"(1) s by (cases r1) auto
    then show ?thesis using es1 "4.prems"(6) by simp
  next
    case True
    then have w: "walkNames segs (sortSlice nameLess cs) es1 = (r, es')"
      using "4.prems"(1) s by simp
    have nh: "\<not> hiddenName n" using s True scanFn_Nil_dir by blast
    have "visibleSeg n" using nh "4.prems"(5) by (simp add: visibleSeg_def)
    then have "\<forall>s \<in> set (butlast segs @ [last segs]). visibleSeg s"
      using "4.prems"(3,4) by auto
    then have v: "\<forall>s \<in> set segs. visibleSeg s"
      using "4.prems"(2) by simp
    have wf: "list_all wfEntry (sortSlice nameLess cs)"
      using "4.prems"(5) by (simp add: list_all_iff)
    show ?thesis
      using "4.IH"[OF s[symmetric] True w v wf] es1 "4.prems"(6) by simp
  qed
next
  case (5 segs entries)
  then show ?case by simp
next
  case (6 segs c cs entries)
  obtain r1 es1 where w: "walk (segs @ [entryName c]) c entries = (r1, es1)"
    by (cases "walk (segs @ [entryName c]) c entries")
  have wfc: "wfEntry c" and wfcs: "list_all wfEntry cs"
    using "6.prems"(3) by simp_all
  have v1: "\<forall>e \<in> set es1. visiblePath (RelPath e)"
    using "6.IH"(1)[OF w] "6.prems"(2,4) wfc by simp
  show ?case
  proof (cases "stopsLoop c r1")
    case True
    then have "es' = es1"
      using "6.prems"(1) w by simp
    then show ?thesis using v1 by simp
  next
    case False
    then have wn: "walkNames segs cs es1 = (r, es')"
      using "6.prems"(1) w by simp
    show ?thesis
      using "6.IH"(2)[OF w[symmetric] False wn "6.prems"(2) wfcs v1] .
  qed
qed

lemma ScanDirectory_visible:
  assumes "list_all wfEntry cs" "ScanDirectory (Directory root cs) = Inr entries"
  shows "\<forall>e \<in> set entries. visiblePath (RelPath e)"
proof -
  obtain r es where W: "walk [] (Directory root cs) [] = (r, es)"
    by (cases "walk [] (Directory root cs) []")
  have entries: "entries = sortSlice entryLess es"
    using assms(2) W by (auto simp: ScanDirectory_def Walk_def split: walkResult.splits if_splits)
  obtain r1 es1 where s: "scanFn [] root True None [] = (r1, es1)"
    by (cases "scanFn [] root True None []")
  have es1: "es1 = []" using s by (rule scanFn_dir_entries)
  have "\<forall>e \<in> set es. visiblePath (RelPath e)"
  proof (cases "r1 = NoError")
    case False
    then have "es = es1" using W s by (cases r1) auto
    then show ?thesis using es1 by simp
  next
    case True
    then have "walkNames [] (sortSlice nameLess cs) [] = (r, es)"
      using W s es1 by simp
    moreover have "list_all wfEntry (sortSlice nameLess cs)"
      using assms(1) by (simp add: list_all_iff)
    ultimately show ?thesis
      using walkNames_visible[of "[]" "sortSlice nameLess cs" "[]" r es] by simp
  qed
  then show ?thesis using entries by simp
qed

text \<open>
  Claim C9.  For every successful scan of a root directory (whose files have names
  without \<^verbatim>\<open>/\<close>, as a file system gives them), no entry of the output has a path segment
  that begins with a dot.  The walk leaves out a file whose name begins with a dot, and
  returns \<^verbatim>\<open>SkipDir\<close> for such a directory without reading anything below it, so
  nothing below a hidden directory is added.
\<close>

theorem C9_no_hidden_segment:
  assumes "list_all wfEntry cs"
    and "ScanDirectory (Directory root cs) = Inr entries"
    and "e \<in> set entries" and "seg \<in> set (Split (RelPath e) CHR ''/'')"
  shows "\<not> HasPrefix seg ''.''
         \<and> (HasPrefix n ''.'' \<longrightarrow>
              walk segs (RegularFile n) acc = (NoError, acc)
              \<and> walk segs (Directory n sub) acc = (SkipDir, acc))"
proof -
  have "visiblePath (RelPath e)"
    using ScanDirectory_visible[OF assms(1,2)] assms(3) by blast
  then have 1: "\<not> HasPrefix seg ''.''"
    using assms(4) by (auto simp: visiblePath_def list_all_iff hiddenName_def)
  have 2: "HasPrefix n ''.'' \<longrightarrow>
              walk segs (RegularFile n) acc = (NoError, acc)
              \<and> walk segs (Directory n sub) acc = (SkipDir, acc)"
    by (simp add: scanFn_def)
  show ?thesis using 1 2 by blast
qed

theorem C9_no_hidden_segment_witness:
  "list_all wfEntry [RegularFile ''b.md'', Directory ''.git'' [RegularFile ''x.md''],
                     RegularFile ''.h.md'', Directory ''sub'' [RegularFile ''B.MD'']]
   \<and> ScanDirectory (Directory ''docs''
         [RegularFile ''b.md'', Directory ''.git'' [RegularFile ''x.md''],
          RegularFile ''.h.md'', Directory ''sub'' [RegularFile ''B.MD'']])
       = Inr [\<lparr>RelPath = ''b.md'', EntryName = ''b''\<rparr>, \<lparr>RelPath = ''sub/B.MD'', EntryName = ''B''\<rparr>]
   \<and> ''sub'' \<in> set (Split ''sub/B.MD'' CHR ''/'')
   \<and> \<not> HasPrefix ''sub'' ''.''
   \<and> HasPrefix ''.git'' ''.''
   \<and> walk [''.git''] (Directory ''.git'' [RegularFile ''x.md'']) [] = (SkipDir, [])"
proof -
  let ?cs = "[RegularFile ''b.md'', Directory ''.git'' [RegularFile ''x.md''],
              RegularFile ''.h.md'', Directory ''sub'' [RegularFile ''B.MD'']]"
  let ?es = "[\<lparr>RelPath = ''b.md'', EntryName = ''b''\<rparr>, \<lparr>RelPath = ''sub/B.MD'', EntryName = ''B''\<rparr>]"
  have h1: "list_all wfEntry ?cs" by simp
  have h2: "ScanDirectory (Directory ''docs'' ?cs) = Inr ?es" by code_simp
  have h3: "\<lparr>RelPath = ''sub/B.MD'', EntryName = ''B''\<rparr> \<in> set ?es" by simp
  have h4: "''sub'' \<in> set (Split (RelPath \<lparr>RelPath = ''sub/B.MD'', EntryName = ''B''\<rparr>) CHR ''/'')"
    by simp
  have h5: "HasPrefix ''.git'' ''.''" by (simp add: HasPrefix_def)
  note C = C9_no_hidden_segment[OF h1 h2 h3 h4, of "''.git''" "[''.git'']" "[]" "[RegularFile ''x.md'']"]
  show ?thesis
    using C h1 h2 h4 h5 by simp
qed

text \<open>
  Claim C10 (as amended).  If the root is a directory whose base name begins with a dot
  and whose entries can be read, ScanDirectory returns an empty entry list and no error,
  whatever the directory holds: the hidden-name check applies to the root of the walk
  as well.  If the entries of the root cannot be read, ScanDirectory returns the read
  error.
\<close>

theorem C10_hidden_root_empty:
  assumes "HasPrefix root ''.''"
  shows "ScanDirectory (Directory root cs) = Inr []
         \<and> ScanDirectory (UnreadableDir root) = Inl (ReadDirError ''.'')"
  using assms
  by (simp add: ScanDirectory_def Walk_def scanFn_def sortSlice_def relOf_def)

theorem C10_hidden_root_empty_witness:
  "HasPrefix ''.docs'' ''.''
   \<and> ScanDirectory (Directory ''.docs'' [RegularFile ''a.md'', Directory ''sub'' [RegularFile ''b.md'']])
       = Inr []"
proof -
  have h: "HasPrefix ''.docs'' ''.''" by (simp add: HasPrefix_def)
  show ?thesis
    using C10_hidden_root_empty[OF h] h by simp
qed

text \<open>
  Claim C10 as stated fails when the entries of the hidden root directory cannot be
  read: the function passed to \<^verbatim>\<open>Walk\<close> returns the read error before it looks at the
  name, and ScanDirectory returns that error.
\<close>

theorem C10_counterexample:
  "ScanDirectory (UnreadableDir ''.docs'') = Inl (ReadDirError ''.'')
   \<and> HasPrefix (entryName (UnreadableDir ''.docs'')) ''.''"
  by code_simp

section \<open>Properties of the navigation tree\<close>

text \<open>
  Claim C3, evaluated where it fails.  The scan keeps a file whose name ends in \<^verbatim>\<open>.Md\<close>
  (it compares the lower-cased name), and the route that \<open>insertNode\<close> gives the
  Document node keeps that extension, since only \<^verbatim>\<open>.md\<close> and \<^verbatim>\<open>.MD\<close> are stripped.
\<close>

theorem C3_mixed_case_extension_kept:
  "ScanDirectory (Directory ''docs'' [RegularFile ''a.Md''])
     = Inr [\<lparr>RelPath = ''a.Md'', EntryName = ''a''\<rparr>]
   \<and> BuildTree [\<lparr>RelPath = ''a.Md'', EntryName = ''a''\<rparr>]
     = TreeNode ''root'' [] True [TreeNode ''a.Md'' ''/a.Md'' False []]"
  by code_simp

text \<open>
  Claim C4, evaluated where it fails.  For a file named \<^verbatim>\<open>a"><i>.md\<close> the link text is
  escaped, but the route, which is made of the same name, is written into the
  \<^verbatim>\<open>href\<close> attribute as it is: the output holds the name's \<^verbatim>\<open>"\<close>, \<^verbatim>\<open><\<close> and \<^verbatim>\<open>>\<close>
  unescaped.
\<close>

theorem C4_route_not_escaped:
  "RenderTree (BuildTree [\<lparr>RelPath = ''a'' @ [DQ] @ ''><i>.md'', EntryName = ''a'' @ [DQ] @ ''><i>''\<rparr>])
   = ''<ul class='' @ [DQ] @ ''file-tree'' @ [DQ] @ ''>'' @ [LF]
     @ ''<li><a href='' @ [DQ] @ ''/a'' @ [DQ] @ ''><i>'' @ [DQ] @ '' class='' @ [DQ] @ ''file'' @ [DQ] @ ''>''
     @ ''a&quot;&gt;&lt;i&gt;.md</a></li>'' @ [LF]
     @ ''</ul>'' @ [LF]"
  by code_simp

text \<open>
  Claim C7 (as amended).  BuildTree applied to the entries \<^verbatim>\<open>a.md\<close>, \<^verbatim>\<open>b/c.md\<close>,
  \<^verbatim>\<open>b/a.md\<close> yields a root whose children are, in order, the Directory named \<^verbatim>\<open>b\<close>
  and the Document named \<^verbatim>\<open>a.md\<close> with route \<^verbatim>\<open>/a\<close>; the children of \<^verbatim>\<open>b\<close> are, in
  order, the Document named \<^verbatim>\<open>a.md\<close> with route \<^verbatim>\<open>/b/a\<close> and the Document named
  \<^verbatim>\<open>c.md\<close> with route \<^verbatim>\<open>/b/c\<close>.
\<close>

theorem C7_build_tree_order:
  "BuildTree [\<lparr>RelPath = ''a.md'', EntryName = ''a''\<rparr>,
              \<lparr>RelPath = ''b/c.md'', EntryName = ''c''\<rparr>,
              \<lparr>RelPath = ''b/a.md'', EntryName = ''a''\<rparr>]
   = TreeNode ''root'' [] True
       [TreeNode ''b'' [] True
          [TreeNode ''a.md'' ''/b/a'' False [],
           TreeNode ''c.md'' ''/b/c'' False []],
        TreeNode ''a.md'' ''/a'' False []]"
  by code_simp

text \<open>
  Claim C7 as stated fails: the names of the root's children are not \<^verbatim>\<open>b\<close> and \<^verbatim>\<open>a\<close>.
\<close>

theorem C7_counterexample:
  "map Name (Children (BuildTree [\<lparr>RelPath = ''a.md'', EntryName = ''a''\<rparr>,
              \<lparr>RelPath = ''b/c.md'', EntryName = ''c''\<rparr>,
              \<lparr>RelPath = ''b/a.md'', EntryName = ''a''\<rparr>])) \<noteq> [''b'', ''a'']"
  by code_simp

section \<open>Properties of ParseFrontmatter\<close>










































text \<open>
  Claim C5, evaluated where it fails.  The closing delimiter is searched as the text
  \<^verbatim>\<open>\n---\<close>, so a line that only begins with \<^verbatim>\<open>---\<close> closes the block and the rest of
  that line becomes the start of the body; and a closing line that follows the opening
  line at once is not found, since the search starts after the opening line's
  terminator.
\<close>

theorem C5_loose_closing_delimiter:
  "ParseFrontmatter (''---'' @ [LF] @ ''title: T'' @ [LF] @ ''---x'' @ [LF] @ ''body'')
     = (\<lparr>Title = ''T'', Author = []\<rparr>, ''x'' @ [LF] @ ''body'')
   \<and> ParseFrontmatter (''---'' @ [LF] @ ''---'' @ [LF] @ ''body'')
     = (\<lparr>Title = [], Author = []\<rparr>, ''---'' @ [LF] @ ''---'' @ [LF] @ ''body'')"
  by code_simp





end
